theory Spec2Isabelle
  imports Main
begin

section \<open>The paging simulator of \<^verbatim>\<open>page_swapping_simulate.cpp\<close>\<close>

text \<open>
  The C++ program keeps three byte vectors (RAM, disk, swap), two allocation bitmaps,
  a vector of back-references from frames to page metadata, and an
  \<^verbatim>\<open>unordered_map\<close> from virtual page numbers to \<^verbatim>\<open>PageMetadata\<close>.

  Conventions of this embedding.
  \<^item> \<^verbatim>\<open>uint32_t\<close> (\<^verbatim>\<open>pfn_t\<close>, \<^verbatim>\<open>vpn_t\<close>, \<^verbatim>\<open>swap_slot_t\<close>) and
    \<^verbatim>\<open>uint64_t\<close> (\<^verbatim>\<open>timestamp_t\<close>, \<^verbatim>\<open>size_t\<close>, \<^verbatim>\<open>uintptr_t\<close> on an LP64
    target) are natural numbers; every place where the source truncates or wraps has the
    \<open>mod\<close> written out, and the sentinel \<^verbatim>\<open>(pfn_t)-1\<close> is \<open>UINT32_MAX\<close>.
  \<^item> A \<^verbatim>\<open>std::vector<char>\<close> and a \<^verbatim>\<open>char[PAGE_SIZE]\<close> buffer are functions
    from the index to a \<open>char\<close>; only indices below the size of the array are ever
    read or written by the model.
  \<^item> A \<^verbatim>\<open>PageMetadata*\<close> stored in \<^verbatim>\<open>frame_to_page\<close> always points at a node of
    the page table; nodes of an \<^verbatim>\<open>unordered_map\<close> do not move, so the pointer is the
    key of that node (\<open>None\<close> is \<^verbatim>\<open>nullptr\<close>). Dereferencing a pointer whose node has
    been erased is undefined behaviour in C++: functions that may do so return an
    \<open>option\<close>, and \<open>None\<close> stands for that undefined behaviour.
  \<^item> The local \<^verbatim>\<open>char buffer[PAGE_SIZE]\<close> of the source is not initialised. Its
    indeterminate content is the parameter \<open>stack\<close> of the functions that declare it.
\<close>

subsection \<open>Constants and types\<close>

type_synonym bytes = "nat \<Rightarrow> char"

definition PAGE_SIZE :: nat where "PAGE_SIZE = 4096"
definition RAM_SIZE :: nat where "RAM_SIZE = 8 * PAGE_SIZE"
definition DISK_SIZE :: nat where "DISK_SIZE = 64 * PAGE_SIZE"
definition SWAP_SIZE :: nat where "SWAP_SIZE = 32 * PAGE_SIZE"
definition UINT32_MAX :: nat where "UINT32_MAX = 4294967295"
definition UINT64_MAX :: nat where "UINT64_MAX = 18446744073709551615"

text \<open>\<^verbatim>\<open>std::memcpy(dst + d, src + s, n)\<close> on arrays given by index.\<close>

definition memcpy :: "bytes \<Rightarrow> nat \<Rightarrow> bytes \<Rightarrow> nat \<Rightarrow> nat \<Rightarrow> bytes" where
  "memcpy dst d src s n = (\<lambda>a. if d \<le> a \<and> a < d + n then src (s + (a - d)) else dst a)"

record PageMetadata =
  present :: bool
  dirty :: bool
  accessed :: bool
  file_backed :: bool
  swapped :: bool
  physical_page :: nat
  disk_page :: nat
  swap_slot :: nat
  last_access :: nat
  virtual_page :: nat

definition PageMetadata_new :: PageMetadata where
  "PageMetadata_new = \<lparr> present = False, dirty = False, accessed = False,
     file_backed = False, swapped = False, physical_page = 0, disk_page = 0,
     swap_slot = 0, last_access = 0, virtual_page = 0 \<rparr>"

subsection \<open>SwapSpace\<close>

record SwapSpace =
  swap_storage :: bytes
  allocated_slots :: "bool list"

definition SwapSpace_new :: SwapSpace where
  "SwapSpace_new = \<lparr> swap_storage = (\<lambda>_. CHR 0x00),
     allocated_slots = replicate (SWAP_SIZE div PAGE_SIZE) False \<rparr>"

function allocate_slot_loop :: "nat \<Rightarrow> SwapSpace \<Rightarrow> nat \<times> SwapSpace" where
  "allocate_slot_loop i sw =
     (if i < length (allocated_slots sw) then
        (if \<not> allocated_slots sw ! i
         then (i, sw\<lparr>allocated_slots := (allocated_slots sw)[i := True]\<rparr>)
         else allocate_slot_loop (Suc i) sw)
      else (UINT32_MAX, sw))"
  by pat_completeness auto
termination
  by (relation "measure (\<lambda>(i, sw). length (allocated_slots sw) - i)") auto

declare allocate_slot_loop.simps [simp del]

definition allocate_slot :: "SwapSpace \<Rightarrow> nat \<times> SwapSpace" where
  "allocate_slot sw = allocate_slot_loop 0 sw"

definition free_slot :: "SwapSpace \<Rightarrow> nat \<Rightarrow> SwapSpace" where
  "free_slot sw slot =
     (if slot < length (allocated_slots sw)
      then sw\<lparr>allocated_slots := (allocated_slots sw)[slot := False]\<rparr>
      else sw)"

definition SwapSpace_write_page :: "SwapSpace \<Rightarrow> nat \<Rightarrow> bytes \<Rightarrow> SwapSpace" where
  "SwapSpace_write_page sw slot data =
     (if slot < length (allocated_slots sw)
      then sw\<lparr>swap_storage := memcpy (swap_storage sw) (slot * PAGE_SIZE) data 0 PAGE_SIZE\<rparr>
      else sw)"

definition SwapSpace_read_page :: "SwapSpace \<Rightarrow> nat \<Rightarrow> bytes \<Rightarrow> bytes" where
  "SwapSpace_read_page sw slot buffer =
     (if slot < length (allocated_slots sw)
      then memcpy buffer 0 (swap_storage sw) (slot * PAGE_SIZE) PAGE_SIZE
      else buffer)"

subsection \<open>Disk\<close>

record Disk =
  storage :: bytes

definition Disk_new :: Disk where
  "Disk_new = \<lparr> storage = (\<lambda>_. CHR 0x00) \<rparr>"

definition Disk_read_page :: "Disk \<Rightarrow> nat \<Rightarrow> bytes \<Rightarrow> bytes" where
  "Disk_read_page d page_num buffer =
     (let offset = page_num * PAGE_SIZE in
      if offset + PAGE_SIZE \<le> DISK_SIZE
      then memcpy buffer 0 (storage d) offset PAGE_SIZE
      else buffer)"

definition Disk_write_page :: "Disk \<Rightarrow> nat \<Rightarrow> bytes \<Rightarrow> Disk" where
  "Disk_write_page d page_num buffer =
     (let offset = page_num * PAGE_SIZE in
      if offset + PAGE_SIZE \<le> DISK_SIZE
      then d\<lparr>storage := memcpy (storage d) offset buffer 0 PAGE_SIZE\<rparr>
      else d)"

text \<open>
  \<^verbatim>\<open>write_file\<close> copies the file to the start of the disk, page by page; the loop
  stops at the end of the file or of the disk.
\<close>

primrec write_file_loop :: "string \<Rightarrow> nat \<Rightarrow> bytes \<Rightarrow> bytes" where
  "write_file_loop data 0 st = st"
| "write_file_loop data (Suc i) st =
     (let st' = write_file_loop data i st;
          copy_size = min PAGE_SIZE (length data - i * PAGE_SIZE)
      in if i * PAGE_SIZE < DISK_SIZE
         then memcpy st' (i * PAGE_SIZE) (\<lambda>k. data ! k) (i * PAGE_SIZE) copy_size
         else st')"

definition write_file :: "Disk \<Rightarrow> string \<Rightarrow> Disk" where
  "write_file d data =
     (let pages_needed = (length data + PAGE_SIZE - 1) div PAGE_SIZE
      in d\<lparr>storage := write_file_loop data pages_needed (storage d)\<rparr>)"

subsection \<open>RAM\<close>

record RAM =
  memory :: bytes
  frame_to_page :: "nat option list"
  allocated :: "bool list"

definition RAM_new :: RAM where
  "RAM_new = \<lparr> memory = (\<lambda>_. CHR 0x00),
     frame_to_page = replicate (RAM_SIZE div PAGE_SIZE) None,
     allocated = replicate (RAM_SIZE div PAGE_SIZE) False \<rparr>"

function allocate_page_loop :: "nat \<Rightarrow> RAM \<Rightarrow> nat option \<Rightarrow> nat \<times> RAM" where
  "allocate_page_loop i r page_meta =
     (if i < length (allocated r) then
        (if \<not> allocated r ! i
         then (i, r\<lparr>allocated := (allocated r)[i := True],
                     frame_to_page := (frame_to_page r)[i := page_meta]\<rparr>)
         else allocate_page_loop (Suc i) r page_meta)
      else (UINT32_MAX, r))"
  by pat_completeness auto
termination
  by (relation "measure (\<lambda>(i, r, m). length (allocated r) - i)") auto

declare allocate_page_loop.simps [simp del]

definition allocate_page :: "RAM \<Rightarrow> nat option \<Rightarrow> nat \<times> RAM" where
  "allocate_page r page_meta = allocate_page_loop 0 r page_meta"

definition free_page :: "RAM \<Rightarrow> nat \<Rightarrow> RAM" where
  "free_page r page_num =
     (if page_num < length (allocated r)
      then r\<lparr>allocated := (allocated r)[page_num := False],
              frame_to_page := (frame_to_page r)[page_num := None]\<rparr>
      else r)"

text \<open>The pointer returned by \<^verbatim>\<open>get_page_ptr\<close> is an index into \<open>memory\<close>.\<close>

definition get_page_ptr :: "RAM \<Rightarrow> nat \<Rightarrow> nat option" where
  "get_page_ptr r page_num =
     (if page_num < length (allocated r) then Some (page_num * PAGE_SIZE) else None)"

definition RAM_read_page :: "RAM \<Rightarrow> nat \<Rightarrow> bytes \<Rightarrow> bytes" where
  "RAM_read_page r page_num buffer =
     (case get_page_ptr r page_num of
        Some page_ptr \<Rightarrow> memcpy buffer 0 (memory r) page_ptr PAGE_SIZE
      | None \<Rightarrow> buffer)"

definition RAM_write_page :: "RAM \<Rightarrow> nat \<Rightarrow> bytes \<Rightarrow> RAM" where
  "RAM_write_page r page_num buffer =
     (case get_page_ptr r page_num of
        Some page_ptr \<Rightarrow> r\<lparr>memory := memcpy (memory r) page_ptr buffer 0 PAGE_SIZE\<rparr>
      | None \<Rightarrow> r)"

definition get_page_metadata :: "RAM \<Rightarrow> nat \<Rightarrow> nat option" where
  "get_page_metadata r frame_num =
     (if frame_num < length (frame_to_page r) then frame_to_page r ! frame_num else None)"

text \<open>
  \<^verbatim>\<open>find_lru_page\<close> reads \<^verbatim>\<open>frame_to_page[i]->last_access\<close>: the page table \<open>pt\<close>
  is where the pointers point. A pointer to an erased node gives \<open>None\<close>.
\<close>

function find_lru_loop ::
  "(nat \<rightharpoonup> PageMetadata) \<Rightarrow> RAM \<Rightarrow> nat \<Rightarrow> nat \<Rightarrow> nat \<Rightarrow> nat option" where
  "find_lru_loop pt r i oldest_time lru_frame =
     (if i < length (frame_to_page r) then
        (case frame_to_page r ! i of
           None \<Rightarrow> find_lru_loop pt r (Suc i) oldest_time lru_frame
         | Some p \<Rightarrow>
             if allocated r ! i then
               (case pt p of
                  None \<Rightarrow> None
                | Some m \<Rightarrow>
                    if last_access m < oldest_time
                    then find_lru_loop pt r (Suc i) (last_access m) i
                    else find_lru_loop pt r (Suc i) oldest_time lru_frame)
             else find_lru_loop pt r (Suc i) oldest_time lru_frame)
      else Some lru_frame)"
  by pat_completeness auto
termination
  by (relation "measure (\<lambda>(pt, r, i, t, f). length (frame_to_page r) - i)") auto

declare find_lru_loop.simps [simp del]

definition find_lru_page :: "(nat \<rightharpoonup> PageMetadata) \<Rightarrow> RAM \<Rightarrow> nat option" where
  "find_lru_page pt r = find_lru_loop pt r 0 UINT64_MAX UINT32_MAX"

subsection \<open>MMU\<close>

text \<open>
  The MMU holds references to the RAM, the disk and the swap space of the
  \<^verbatim>\<open>VirtualMemorySystem\<close> that owns it; the record holds them by value, since the MMU
  is the only component that changes them after start-up.
\<close>

record MMU =
  page_table :: "nat \<rightharpoonup> PageMetadata"
  ram :: RAM
  disk :: Disk
  swap_space :: SwapSpace
  next_disk_page :: nat
  current_time :: nat

definition MMU_new :: MMU where
  "MMU_new = \<lparr> page_table = Map.empty, ram = RAM_new, disk = Disk_new,
     swap_space = SwapSpace_new, next_disk_page = 0, current_time = 0 \<rparr>"

text \<open>
  Lines 237--260 of \<^verbatim>\<open>evict_page\<close>: the victim's frame is saved where its kind says.
  The result is the victim's metadata and the machine after the writes.
\<close>

definition write_out_victim ::
  "bytes \<Rightarrow> nat \<Rightarrow> PageMetadata \<Rightarrow> MMU \<Rightarrow> PageMetadata \<times> MMU" where
  "write_out_victim stack victim_frame victim_meta s =
     (if dirty victim_meta then
        (let buffer = RAM_read_page (ram s) victim_frame stack in
         if file_backed victim_meta
         then (victim_meta, s\<lparr>disk := Disk_write_page (disk s) (disk_page victim_meta) buffer\<rparr>)
         else
           (let (vm, sw) =
                  (if \<not> swapped victim_meta
                   then (let (slot, sw') = allocate_slot (swap_space s)
                         in (victim_meta\<lparr>swap_slot := slot, swapped := True\<rparr>, sw'))
                   else (victim_meta, swap_space s))
            in (vm, s\<lparr>swap_space := SwapSpace_write_page sw (swap_slot vm) buffer\<rparr>)))
      else if \<not> file_backed victim_meta \<and> \<not> swapped victim_meta then
        (let (slot, sw') = allocate_slot (swap_space s);
             vm = victim_meta\<lparr>swap_slot := slot, swapped := True\<rparr>;
             buffer = RAM_read_page (ram s) victim_frame stack
         in (vm, s\<lparr>swap_space := SwapSpace_write_page sw' (swap_slot vm) buffer\<rparr>))
      else (victim_meta, s))"

definition evict_page :: "bytes \<Rightarrow> MMU \<Rightarrow> (nat \<times> MMU) option" where
  "evict_page stack s =
     (case find_lru_page (page_table s) (ram s) of
        None \<Rightarrow> None
      | Some victim_frame \<Rightarrow>
          if victim_frame = UINT32_MAX then Some (UINT32_MAX, s)
          else
            (case get_page_metadata (ram s) victim_frame of
               None \<Rightarrow> Some (UINT32_MAX, s)
             | Some p \<Rightarrow>
                 (case page_table s p of
                    None \<Rightarrow> None
                  | Some victim_meta \<Rightarrow>
                      (let (vm, s1) = write_out_victim stack victim_frame victim_meta s;
                           vm' = vm\<lparr>present := False, dirty := False, physical_page := 0\<rparr>;
                           s2 = s1\<lparr>page_table := (page_table s1)(p \<mapsto> vm')\<rparr>
                       in Some (victim_frame, s2\<lparr>ram := free_page (ram s2) victim_frame\<rparr>)))))"

text \<open>
  Lines 304--327 of \<^verbatim>\<open>handle_page_fault\<close>, once a frame has been secured: the page is
  loaded into \<open>phys_page\<close> and its metadata is updated. \<open>pte\<close> is a reference into the
  page table, so it is read again here, after a possible eviction.
\<close>

definition load_page :: "bytes \<Rightarrow> nat \<Rightarrow> nat \<Rightarrow> MMU \<Rightarrow> (bool \<times> MMU) option" where
  "load_page stack vpage phys_page s =
     (case page_table s vpage of
        None \<Rightarrow> None
      | Some pte \<Rightarrow>
          (let (buffer, pte1, s1) =
                 (if swapped pte
                  then (SwapSpace_read_page (swap_space s) (swap_slot pte) stack,
                        pte\<lparr>swapped := False\<rparr>,
                        s\<lparr>swap_space := free_slot (swap_space s) (swap_slot pte)\<rparr>)
                  else if file_backed pte
                  then (Disk_read_page (disk s) (disk_page pte) stack, pte, s)
                  else (memcpy stack 0 (\<lambda>_. CHR 0x00) 0 PAGE_SIZE, pte, s));
               s2 = s1\<lparr>ram := RAM_write_page (ram s1) phys_page buffer\<rparr>;
               t = (current_time s2 + 1) mod 2 ^ 64;
               pte2 = pte1\<lparr>physical_page := phys_page, present := True, last_access := t\<rparr>
           in Some (True, s2\<lparr>page_table := (page_table s2)(vpage \<mapsto> pte2),
                                current_time := t\<rparr>)))"

definition handle_page_fault :: "bytes \<Rightarrow> nat \<Rightarrow> MMU \<Rightarrow> (bool \<times> MMU) option" where
  "handle_page_fault stack vpage s =
     (case page_table s vpage of
        None \<Rightarrow> Some (False, s)
      | Some _ \<Rightarrow>
          (let (phys_page, r1) = allocate_page (ram s) (Some vpage);
               s1 = s\<lparr>ram := r1\<rparr>
           in if phys_page = UINT32_MAX then
                (case evict_page stack s1 of
                   None \<Rightarrow> None
                 | Some (victim, s2) \<Rightarrow>
                     if victim = UINT32_MAX then Some (False, s2)
                     else
                       (let (phys_page', r3) =
                              allocate_page (free_page (ram s2) victim) (Some vpage)
                        in load_page stack vpage phys_page' (s2\<lparr>ram := r3\<rparr>)))
              else load_page stack vpage phys_page s1))"

text \<open>
  \<^verbatim>\<open>translate_address\<close> returns a pointer into \<open>memory\<close> (an index) or \<^verbatim>\<open>nullptr\<close>
  (the inner \<open>None\<close>). \<^verbatim>\<open>nullptr + page_offset\<close> with a non-zero offset is undefined
  behaviour. \<open>record_access\<close> is lines 350--358, which run once the page is resident:
  \<open>pte\<close> is a reference into the page table and is read after a possible fault.
\<close>

definition record_access :: "nat \<Rightarrow> bool \<Rightarrow> MMU \<Rightarrow> (nat option \<times> MMU) option" where
  "record_access vaddr write_access s =
     (let vpage = (vaddr div PAGE_SIZE) mod 2 ^ 32;
          page_offset = vaddr mod PAGE_SIZE
      in case page_table s vpage of
           None \<Rightarrow> None
         | Some pte \<Rightarrow>
             (let t = (current_time s + 1) mod 2 ^ 64;
                  pte1 = pte\<lparr>last_access := t, accessed := True\<rparr>;
                  pte' = (if write_access then pte1\<lparr>dirty := True\<rparr> else pte1);
                  s2 = s\<lparr>page_table := (page_table s)(vpage \<mapsto> pte'), current_time := t\<rparr>
              in case get_page_ptr (ram s2) (physical_page pte') of
                   Some phys_addr \<Rightarrow> Some (Some (phys_addr + page_offset), s2)
                 | None \<Rightarrow> if page_offset = 0 then Some (None, s2) else None))"

definition translate_address ::
  "bytes \<Rightarrow> nat \<Rightarrow> bool \<Rightarrow> MMU \<Rightarrow> (nat option \<times> MMU) option" where
  "translate_address stack vaddr write_access s =
     (let vpage = (vaddr div PAGE_SIZE) mod 2 ^ 32
      in case page_table s vpage of
           None \<Rightarrow> Some (None, s)
         | Some pte0 \<Rightarrow>
             if \<not> present pte0 then
               (case handle_page_fault stack vpage s of
                  None \<Rightarrow> None
                | Some (ok, s1) \<Rightarrow>
                    if \<not> ok then Some (None, s1) else record_access vaddr write_access s1)
             else record_access vaddr write_access s)"

primrec map_pages_loop ::
  "nat \<Rightarrow> bool \<Rightarrow> nat \<Rightarrow> nat \<Rightarrow> (nat \<rightharpoonup> PageMetadata) \<Rightarrow> (nat \<rightharpoonup> PageMetadata)" where
  "map_pages_loop start_page fb disk_start 0 pt = pt"
| "map_pages_loop start_page fb disk_start (Suc i) pt =
     (let pt' = map_pages_loop start_page fb disk_start i pt;
          vpage = (start_page + i) mod 2 ^ 32;
          pte = PageMetadata_new\<lparr>file_backed := fb, virtual_page := vpage\<rparr>;
          pte' = (if fb then pte\<lparr>disk_page := (disk_start + i) mod 2 ^ 32\<rparr> else pte)
      in pt'(vpage \<mapsto> pte'))"

definition map_pages :: "nat \<Rightarrow> nat \<Rightarrow> bool \<Rightarrow> nat \<Rightarrow> MMU \<Rightarrow> bool \<times> MMU" where
  "map_pages start_page num_pages fb disk_start s =
     (True, s\<lparr>page_table := map_pages_loop start_page fb disk_start num_pages (page_table s)\<rparr>)"

definition unmap_page :: "bytes \<Rightarrow> nat \<Rightarrow> MMU \<Rightarrow> MMU" where
  "unmap_page stack vpage s =
     (case page_table s vpage of
        None \<Rightarrow> s
      | Some pte \<Rightarrow>
          (let s1 = (if present pte then
                       (let s' = (if dirty pte \<and> file_backed pte
                                  then s\<lparr>disk := Disk_write_page (disk s) (disk_page pte)
                                                    (RAM_read_page (ram s) (physical_page pte) stack)\<rparr>
                                  else s)
                        in s'\<lparr>ram := free_page (ram s') (physical_page pte)\<rparr>)
                     else s);
               s2 = (if swapped pte
                     then s1\<lparr>swap_space := free_slot (swap_space s1) (swap_slot pte)\<rparr>
                     else s1)
           in s2\<lparr>page_table := (page_table s2)(vpage := None)\<rparr>))"

primrec unmap_pages_loop :: "bytes \<Rightarrow> nat \<Rightarrow> nat \<Rightarrow> MMU \<Rightarrow> MMU" where
  "unmap_pages_loop stack start_page 0 s = s"
| "unmap_pages_loop stack start_page (Suc i) s =
     unmap_page stack ((start_page + i) mod 2 ^ 32) (unmap_pages_loop stack start_page i s)"

definition unmap_pages :: "bytes \<Rightarrow> nat \<Rightarrow> nat \<Rightarrow> MMU \<Rightarrow> bool \<times> MMU" where
  "unmap_pages stack start_page num_pages s =
     (True, unmap_pages_loop stack start_page num_pages s)"

subsection \<open>VirtualMemorySystem\<close>

record VirtualMemorySystem =
  mmu :: MMU
  next_virtual_addr :: nat

definition VirtualMemorySystem_new :: VirtualMemorySystem where
  "VirtualMemorySystem_new = \<lparr> mmu = MMU_new, next_virtual_addr = 0x10000000 \<rparr>"

text \<open>
  \<^verbatim>\<open>mmap\<close>: \<open>fd_is_file\<close> is \<^verbatim>\<open>fd != -1\<close>; the \<^verbatim>\<open>off_t\<close> offset is taken
  non-negative. The result is the address returned.
\<close>

definition mmap ::
  "nat \<Rightarrow> bool \<Rightarrow> nat \<Rightarrow> VirtualMemorySystem \<Rightarrow> nat option \<times> VirtualMemorySystem" where
  "mmap len fd_is_file offset v =
     (let pages_needed = ((len + PAGE_SIZE - 1) mod 2 ^ 64) div PAGE_SIZE;
          virtual_addr = next_virtual_addr v;
          start_page = (virtual_addr div PAGE_SIZE) mod 2 ^ 32;
          disk_start = (if fd_is_file then (offset div PAGE_SIZE) mod 2 ^ 32 else 0);
          (ok, m) = map_pages start_page pages_needed fd_is_file disk_start (mmu v)
      in if ok
         then (Some virtual_addr,
               v\<lparr>mmu := m,
                 next_virtual_addr := (next_virtual_addr v + pages_needed * PAGE_SIZE) mod 2 ^ 64\<rparr>)
         else (None, v\<lparr>mmu := m\<rparr>))"

text \<open>\<^verbatim>\<open>munmap\<close> returns 0 or -1.\<close>

definition munmap :: "bytes \<Rightarrow> nat \<Rightarrow> nat \<Rightarrow> VirtualMemorySystem \<Rightarrow> int \<times> VirtualMemorySystem" where
  "munmap stack virtual_addr len v =
     (let start_page = (virtual_addr div PAGE_SIZE) mod 2 ^ 32;
          pages_needed = ((len + PAGE_SIZE - 1) mod 2 ^ 64) div PAGE_SIZE;
          (ok, m) = unmap_pages stack start_page pages_needed (mmu v)
      in (if ok then 0 else - 1, v\<lparr>mmu := m\<rparr>))"

text \<open>
  \<^verbatim>\<open>write_memory\<close> and \<^verbatim>\<open>read_memory\<close> copy the given number of bytes at the translated
  address. A copy that leaves the RAM vector is undefined behaviour (\<open>None\<close>).
  \<^verbatim>\<open>read_memory\<close> gives the bytes it copied into the caller's buffer, or \<open>None\<close> when
  the translation failed.
\<close>

definition write_memory :: "bytes \<Rightarrow> nat \<Rightarrow> string \<Rightarrow> MMU \<Rightarrow> MMU option" where
  "write_memory stack addr data s =
     (case translate_address stack addr True s of
        None \<Rightarrow> None
      | Some (None, s1) \<Rightarrow> Some s1
      | Some (Some phys_addr, s1) \<Rightarrow>
          if phys_addr + length data \<le> RAM_SIZE
          then Some (s1\<lparr>ram := (ram s1)\<lparr>memory :=
                 memcpy (memory (ram s1)) phys_addr (\<lambda>i. data ! i) 0 (length data)\<rparr>\<rparr>)
          else None)"

definition read_memory :: "bytes \<Rightarrow> nat \<Rightarrow> nat \<Rightarrow> MMU \<Rightarrow> (string option \<times> MMU) option" where
  "read_memory stack addr n s =
     (case translate_address stack addr False s of
        None \<Rightarrow> None
      | Some (None, s1) \<Rightarrow> Some (None, s1)
      | Some (Some phys_addr, s1) \<Rightarrow>
          if phys_addr + n \<le> RAM_SIZE
          then Some (Some (map (memory (ram s1)) [phys_addr ..< phys_addr + n]), s1)
          else None)"

subsection \<open>Operations and reachable states\<close>

text \<open>
  The operations of the MMU (its public methods and the private \<^verbatim>\<open>evict_page\<close>), the
  memory accesses of the \<^verbatim>\<open>VirtualMemorySystem\<close>, and \<^verbatim>\<open>create_file\<close>. A step is
  \<open>None\<close> when the C++ execution has undefined behaviour.
\<close>

datatype operation =
    MapPages nat nat bool nat
  | UnmapPages nat nat
  | TranslateAddress nat bool
  | HandlePageFault nat
  | EvictPage
  | WriteMemory nat string
  | ReadMemory nat nat
  | CreateFile string

fun step :: "bytes \<Rightarrow> operation \<Rightarrow> MMU \<Rightarrow> MMU option" where
  "step stack (MapPages start_page num_pages fb disk_start) s =
     Some (snd (map_pages start_page num_pages fb disk_start s))"
| "step stack (UnmapPages start_page num_pages) s =
     Some (snd (unmap_pages stack start_page num_pages s))"
| "step stack (TranslateAddress vaddr write_access) s =
     map_option snd (translate_address stack vaddr write_access s)"
| "step stack (HandlePageFault vpage) s = map_option snd (handle_page_fault stack vpage s)"
| "step stack EvictPage s = map_option snd (evict_page stack s)"
| "step stack (WriteMemory addr data) s = write_memory stack addr data s"
| "step stack (ReadMemory addr n) s = map_option snd (read_memory stack addr n s)"
| "step stack (CreateFile data) s = Some (s\<lparr>disk := write_file (disk s) data\<rparr>)"

inductive reachable :: "MMU \<Rightarrow> bool" where
  reachable_init: "reachable MMU_new"
| reachable_step: "reachable s \<Longrightarrow> step stack op s = Some s' \<Longrightarrow> reachable s'"

text \<open>A run of operations, all with the same stack garbage; it stops at undefined behaviour.\<close>

fun run :: "bytes \<Rightarrow> operation list \<Rightarrow> MMU \<Rightarrow> MMU option" where
  "run stack [] s = Some s"
| "run stack (op # ops) s =
     (case step stack op s of None \<Rightarrow> None | Some s' \<Rightarrow> run stack ops s')"

section \<open>The frame allocator of \<^verbatim>\<open>mmap.cpp\<close>\<close>

record mmap_RAM =
  mmap_memory :: bytes
  mmap_allocated :: "bool list"

definition mmap_free_page :: "mmap_RAM \<Rightarrow> nat \<Rightarrow> mmap_RAM" where
  "mmap_free_page r page_num =
     (if page_num < length (mmap_allocated r)
      then r\<lparr>mmap_allocated := (mmap_allocated r)[page_num := False]\<rparr>
      else r)"

section \<open>Well-formed states\<close>

text \<open>The vectors keep the sizes their constructors gave them.\<close>

definition sized :: "MMU \<Rightarrow> bool" where
  "sized s \<longleftrightarrow>
     length (allocated (ram s)) = RAM_SIZE div PAGE_SIZE \<and>
     length (frame_to_page (ram s)) = RAM_SIZE div PAGE_SIZE \<and>
     length (allocated_slots (swap_space s)) = SWAP_SIZE div PAGE_SIZE"

text \<open>
  Every present entry owns its frame: the frame is allocated and points back at it.
  The predicate is on the three components it reads: the page table, the allocation
  bitmap and the back-references.
\<close>

definition owns :: "(nat \<rightharpoonup> PageMetadata) \<Rightarrow> bool list \<Rightarrow> nat option list \<Rightarrow> bool" where
  "owns pt al ftp \<longleftrightarrow>
     (\<forall>p e. pt p = Some e \<and> present e \<longrightarrow>
        physical_page e < length al \<and> al ! physical_page e \<and> ftp ! physical_page e = Some p)"

definition frames_owned :: "MMU \<Rightarrow> bool" where
  "frames_owned s \<longleftrightarrow> owns (page_table s) (allocated (ram s)) (frame_to_page (ram s))"

definition owned :: "MMU \<Rightarrow> bool" where
  "owned s \<longleftrightarrow> sized s \<and> frames_owned s"

text \<open>No two distinct present entries hold the same frame.\<close>

definition frame_unique :: "MMU \<Rightarrow> bool" where
  "frame_unique s \<longleftrightarrow>
     (\<forall>p q e e'. page_table s p = Some e \<and> page_table s q = Some e' \<and>
        present e \<and> present e' \<and> physical_page e = physical_page e' \<longrightarrow> p = q)"

text \<open>
  The page that \<^verbatim>\<open>handle_page_fault\<close> loads for an entry: from its swap slot, from
  its disk page, or zeros.
\<close>

definition load_buffer :: "bytes \<Rightarrow> MMU \<Rightarrow> PageMetadata \<Rightarrow> bytes" where
  "load_buffer stack s pte =
     (if swapped pte then SwapSpace_read_page (swap_space s) (swap_slot pte) stack
      else if file_backed pte then Disk_read_page (disk s) (disk_page pte) stack
      else memcpy stack 0 (\<lambda>_. CHR 0x00) 0 PAGE_SIZE)"

text \<open>The entry after \<^verbatim>\<open>translate_address\<close> has recorded an access at time \<open>t\<close>.\<close>

definition touch :: "bool \<Rightarrow> nat \<Rightarrow> PageMetadata \<Rightarrow> PageMetadata" where
  "touch write_access t pte =
     (if write_access then pte\<lparr>last_access := t, accessed := True, dirty := True\<rparr>
      else pte\<lparr>last_access := t, accessed := True\<rparr>)"

text \<open>Every allocated frame is backed: it points at a present entry that holds it.\<close>

definition backs :: "(nat \<rightharpoonup> PageMetadata) \<Rightarrow> bool list \<Rightarrow> nat option list \<Rightarrow> bool" where
  "backs pt al ftp \<longleftrightarrow>
     (\<forall>f < length al. al ! f \<longrightarrow>
        (\<exists>p e. ftp ! f = Some p \<and> pt p = Some e \<and> present e \<and> physical_page e = f))"

definition frames_backed :: "MMU \<Rightarrow> bool" where
  "frames_backed s \<longleftrightarrow> backs (page_table s) (allocated (ram s)) (frame_to_page (ram s))"












section \<open>Verification\<close>

subsection \<open>Evaluation on concrete inputs\<close>

lemmas cdefs = PAGE_SIZE_def RAM_SIZE_def DISK_SIZE_def SWAP_SIZE_def UINT32_MAX_def
  UINT64_MAX_def

lemmas map_pages_loop_numeral =
  map_pages_loop.simps(2) [of _ _ _ "pred_numeral k" for k, folded numeral_eq_Suc]

lemmas unmap_pages_loop_numeral =
  unmap_pages_loop.simps(2) [of _ _ "pred_numeral k" for k, folded numeral_eq_Suc]

lemmas replicate_numeral =
  replicate.simps(2) [of "pred_numeral k" for k, folded numeral_eq_Suc]

lemmas eval_defs = MMU_new_def RAM_new_def Disk_new_def SwapSpace_new_def PageMetadata_new_def
  map_pages_def allocate_slot_def free_slot_def SwapSpace_write_page_def SwapSpace_read_page_def
  Disk_read_page_def Disk_write_page_def allocate_page_def free_page_def get_page_ptr_def
  RAM_read_page_def RAM_write_page_def get_page_metadata_def find_lru_page_def
  write_out_victim_def evict_page_def load_page_def handle_page_fault_def record_access_def
  translate_address_def
  unmap_page_def unmap_pages_def write_memory_def read_memory_def map_pages_loop_numeral
  unmap_pages_loop_numeral allocate_page_loop.simps allocate_slot_loop.simps
  find_lru_loop.simps replicate_numeral

subsection \<open>Freeing a frame or a slot\<close>

lemma list_update_same: "xs ! i = x \<Longrightarrow> xs[i := x] = xs"
  by (cases "i < length xs") (auto simp add: list_update_same_conv list_update_beyond)

text \<open>
  Claim C10. \<^verbatim>\<open>RAM::free_page\<close> (both in the swapping simulator and in
  \<^verbatim>\<open>mmap.cpp\<close>) and \<^verbatim>\<open>SwapSpace::free_slot\<close> are total and idempotent: freeing
  twice is freeing once; an index past the end of the bitmap changes nothing; freeing a
  frame or slot that is already free (bit clear, back-reference null) changes nothing; the
  stored bytes and the sizes of the vectors never change, and neither does the bit or the
  back-reference of any other index. The functions return no error: they are plain
  state transformers.
\<close>

theorem free_idempotent_total:
  "(free_page (free_page r f) f = free_page r f \<and>
    (length (allocated r) \<le> f \<longrightarrow> free_page r f = r) \<and>
    (\<not> allocated r ! f \<and> frame_to_page r ! f = None \<longrightarrow> free_page r f = r) \<and>
    memory (free_page r f) = memory r \<and>
    length (allocated (free_page r f)) = length (allocated r) \<and>
    length (frame_to_page (free_page r f)) = length (frame_to_page r) \<and>
    (\<forall>g. g \<noteq> f \<longrightarrow> allocated (free_page r f) ! g = allocated r ! g \<and>
        frame_to_page (free_page r f) ! g = frame_to_page r ! g)) \<and>
   (free_slot (free_slot sw j) j = free_slot sw j \<and>
    (length (allocated_slots sw) \<le> j \<longrightarrow> free_slot sw j = sw) \<and>
    (\<not> allocated_slots sw ! j \<longrightarrow> free_slot sw j = sw) \<and>
    swap_storage (free_slot sw j) = swap_storage sw \<and>
    length (allocated_slots (free_slot sw j)) = length (allocated_slots sw) \<and>
    (\<forall>i. i \<noteq> j \<longrightarrow> allocated_slots (free_slot sw j) ! i = allocated_slots sw ! i)) \<and>
   (mmap_free_page (mmap_free_page r' f) f = mmap_free_page r' f \<and>
    (length (mmap_allocated r') \<le> f \<longrightarrow> mmap_free_page r' f = r') \<and>
    (\<not> mmap_allocated r' ! f \<longrightarrow> mmap_free_page r' f = r') \<and>
    mmap_memory (mmap_free_page r' f) = mmap_memory r' \<and>
    length (mmap_allocated (mmap_free_page r' f)) = length (mmap_allocated r') \<and>
    (\<forall>i. i \<noteq> f \<longrightarrow> mmap_allocated (mmap_free_page r' f) ! i = mmap_allocated r' ! i))"
proof -
  have a: "\<not> allocated r ! f \<Longrightarrow> frame_to_page r ! f = None \<Longrightarrow> free_page r f = r"
    by (simp add: free_page_def list_update_same)
  have b: "\<not> allocated_slots sw ! j \<Longrightarrow> free_slot sw j = sw"
    by (simp add: free_slot_def list_update_same)
  have c: "\<not> mmap_allocated r' ! f \<Longrightarrow> mmap_free_page r' f = r'"
    by (simp add: mmap_free_page_def list_update_same)
  show ?thesis
    using a b c by (simp add: free_page_def free_slot_def mmap_free_page_def)
qed

theorem free_idempotent_total_witness:
  "free_page (free_page RAM_new 3) 3 = free_page RAM_new 3 \<and>
   free_page RAM_new 8 = RAM_new \<and>
   free_page RAM_new 3 = RAM_new \<and>
   free_slot SwapSpace_new 32 = SwapSpace_new \<and>
   free_slot SwapSpace_new 5 = SwapSpace_new"
  using free_idempotent_total [of RAM_new 3 SwapSpace_new 5
      "\<lparr>mmap_memory = (\<lambda>_. CHR 0x00), mmap_allocated = []\<rparr>"]
    free_idempotent_total [of RAM_new 8 SwapSpace_new 32
      "\<lparr>mmap_memory = (\<lambda>_. CHR 0x00), mmap_allocated = []\<rparr>"]
  by (simp add: RAM_new_def SwapSpace_new_def cdefs replicate_numeral)

subsection \<open>Store bounds\<close>

lemma memcpy_read_back:
  "i < n \<Longrightarrow> memcpy buffer 0 (memcpy st off data 0 n) off n i = data i"
  by (simp add: memcpy_def)

text \<open>
  Claim C9 says that a page id outside the store fails with a bounds error. The stores
  have no error to give: \<^verbatim>\<open>read_page\<close> and \<^verbatim>\<open>write_page\<close> return \<^verbatim>\<open>void\<close>
  and skip the copy. At disk page 64 and swap slot 32 (the first ones out of range) a
  write leaves the store as it was, a read leaves the caller's buffer as it was, and a
  page fault that reads disk page 64 reports success.
\<close>

theorem store_bounds_counterexample:
  "Disk_write_page Disk_new 64 (\<lambda>_. CHR ''x'') = Disk_new \<and>
   Disk_read_page Disk_new 64 (\<lambda>_. CHR ''x'') = (\<lambda>_. CHR ''x'') \<and>
   SwapSpace_write_page SwapSpace_new 32 (\<lambda>_. CHR ''x'') = SwapSpace_new \<and>
   SwapSpace_read_page SwapSpace_new 32 (\<lambda>_. CHR ''x'') = (\<lambda>_. CHR ''x'') \<and>
   map_option fst
     (handle_page_fault (\<lambda>_. CHR ''x'') 0 (snd (map_pages 0 1 True 64 MMU_new))) = Some True"
  by (simp add: eval_defs cdefs)

text \<open>
  Claim C9, as the code has it. An access out of range is a silent no-op: the read
  returns the caller's buffer unchanged, the write returns the store unchanged. In
  range (disk pages below 64, swap slots below the number of slots) a page written is
  the page read back.
\<close>

theorem store_bounds_silent:
  "(DISK_SIZE < page_num * PAGE_SIZE + PAGE_SIZE \<longrightarrow>
      Disk_read_page d page_num buffer = buffer \<and> Disk_write_page d page_num data = d) \<and>
   (length (allocated_slots sw) \<le> slot \<longrightarrow>
      SwapSpace_read_page sw slot buffer = buffer \<and> SwapSpace_write_page sw slot data = sw) \<and>
   (page_num * PAGE_SIZE + PAGE_SIZE \<le> DISK_SIZE \<longrightarrow>
      (\<forall>i<PAGE_SIZE. Disk_read_page (Disk_write_page d page_num data) page_num buffer i = data i)) \<and>
   (slot < length (allocated_slots sw) \<longrightarrow>
      (\<forall>i<PAGE_SIZE.
         SwapSpace_read_page (SwapSpace_write_page sw slot data) slot buffer i = data i)) \<and>
   (page_num * PAGE_SIZE + PAGE_SIZE \<le> DISK_SIZE \<longleftrightarrow> page_num < 64)"
  by (auto simp add: Disk_read_page_def Disk_write_page_def SwapSpace_read_page_def
      SwapSpace_write_page_def Let_def memcpy_read_back cdefs)

theorem store_bounds_silent_witness:
  "Disk_read_page Disk_new 70 (\<lambda>_. CHR ''x'') = (\<lambda>_. CHR ''x'') \<and>
   Disk_write_page Disk_new 70 (\<lambda>_. CHR ''x'') = Disk_new \<and>
   Disk_read_page (Disk_write_page Disk_new 3 (\<lambda>_. CHR ''x'')) 3 (\<lambda>_. CHR ''y'') 17 = CHR ''x'' \<and>
   SwapSpace_read_page (SwapSpace_write_page SwapSpace_new 31 (\<lambda>_. CHR ''x'')) 31
     (\<lambda>_. CHR ''y'') 4095 = CHR ''x''"
  using store_bounds_silent [of 70 Disk_new "\<lambda>_. CHR ''x''" "\<lambda>_. CHR ''x''" SwapSpace_new 32]
    store_bounds_silent [of 3 Disk_new "\<lambda>_. CHR ''y''" "\<lambda>_. CHR ''x''" SwapSpace_new 31]
  by (simp add: cdefs SwapSpace_new_def)

subsection \<open>Unmapping what is not mapped\<close>

lemma unmap_page_absent: "page_table s p = None \<Longrightarrow> unmap_page stack p s = s"
  by (simp add: unmap_page_def)

lemma unmap_pages_loop_absent:
  "(\<forall>i<n. page_table s ((start_page + i) mod 2 ^ 32) = None) \<Longrightarrow>
   unmap_pages_loop stack start_page n s = s"
  by (induction n) (simp_all add: unmap_page_absent)

text \<open>
  Claim C8 says that unmapping a range with no mapped page returns a not-mapped error.
  \<^verbatim>\<open>unmap_pages\<close> skips every page it does not find and returns \<^verbatim>\<open>true\<close>, so
  \<^verbatim>\<open>munmap\<close> returns 0.
\<close>

theorem unmap_unmapped_counterexample:
  "unmap_pages (\<lambda>_. CHR 0x00) 5 3 MMU_new = (True, MMU_new) \<and>
   fst (munmap (\<lambda>_. CHR 0x00) 0x5000 12288 VirtualMemorySystem_new) = 0"
  by (simp add: eval_defs cdefs munmap_def VirtualMemorySystem_new_def)

text \<open>
  Claim C8, as the code has it. Unmapping a range none of whose pages has an entry
  returns success (\<^verbatim>\<open>true\<close> from \<^verbatim>\<open>unmap_pages\<close>, 0 from \<^verbatim>\<open>munmap\<close>) and
  leaves the whole machine unchanged: page table, frames, swap slots and stores.
\<close>

theorem unmap_unmapped_lenient:
  assumes "\<forall>i<n. page_table s ((start_page + i) mod 2 ^ 32) = None"
  shows "unmap_pages stack start_page n s = (True, s) \<and>
    (\<forall>v addr len. mmu v = s \<and> (addr div PAGE_SIZE) mod 2 ^ 32 = start_page \<and>
        ((len + PAGE_SIZE - 1) mod 2 ^ 64) div PAGE_SIZE = n \<longrightarrow>
      munmap stack addr len v = (0, v))"
  using assms by (auto simp add: unmap_pages_def munmap_def unmap_pages_loop_absent)

theorem unmap_unmapped_lenient_witness:
  "(let s = snd (map_pages 0 2 False 0 MMU_new) in
     page_table s 5 = None \<and> page_table s 6 = None \<and> page_table s 0 \<noteq> None \<and>
     unmap_pages (\<lambda>_. CHR 0x00) 5 2 s = (True, s))"
proof -
  let ?s = "snd (map_pages 0 2 False 0 MMU_new)"
  have h: "\<forall>i<2. page_table ?s ((5 + i) mod 2 ^ 32) = None"
  proof (intro allI impI)
    fix i :: nat assume "i < 2"
    then have "i = 0 \<or> i = 1" by auto
    then show "page_table ?s ((5 + i) mod 2 ^ 32) = None"
      by (auto simp add: eval_defs cdefs)
  qed
  show ?thesis
    using unmap_unmapped_lenient [OF h, of "\<lambda>_. CHR 0x00"]
    by (simp add: eval_defs cdefs Let_def)
qed

subsection \<open>A failed fault\<close>

lemma allocate_page_loop_cases:
  "allocate_page_loop i r m = (f, r') \<Longrightarrow>
   (f = UINT32_MAX \<and> r' = r \<and> (\<forall>j. i \<le> j \<and> j < length (allocated r) \<longrightarrow> allocated r ! j)) \<or>
   (i \<le> f \<and> f < length (allocated r) \<and> \<not> allocated r ! f \<and>
    (\<forall>j. i \<le> j \<and> j < f \<longrightarrow> allocated r ! j) \<and>
    r' = r\<lparr>allocated := (allocated r)[f := True],
           frame_to_page := (frame_to_page r)[f := m]\<rparr>)"
proof (induction i r m rule: allocate_page_loop.induct)
  case (1 i r m)
  show ?case
  proof (cases "i < length (allocated r)")
    case False
    with "1.prems" show ?thesis
      by (auto simp add: allocate_page_loop.simps [of i])
  next
    case True
    show ?thesis
    proof (cases "allocated r ! i")
      case False
      with True "1.prems" show ?thesis
        by (auto simp add: allocate_page_loop.simps [of i])
    next
      case a: True
      with True "1.prems" have "allocate_page_loop (Suc i) r m = (f, r')"
        by (simp add: allocate_page_loop.simps [of i])
      from "1.IH" [OF True _ this] a have
        "(f = UINT32_MAX \<and> r' = r \<and>
           (\<forall>j. Suc i \<le> j \<and> j < length (allocated r) \<longrightarrow> allocated r ! j)) \<or>
         (Suc i \<le> f \<and> f < length (allocated r) \<and> \<not> allocated r ! f \<and>
           (\<forall>j. Suc i \<le> j \<and> j < f \<longrightarrow> allocated r ! j) \<and>
           r' = r\<lparr>allocated := (allocated r)[f := True],
                  frame_to_page := (frame_to_page r)[f := m]\<rparr>)"
        by simp
      moreover have "\<And>n. (\<forall>j. Suc i \<le> j \<and> j < n \<longrightarrow> allocated r ! j) \<Longrightarrow>
          (\<forall>j. i \<le> j \<and> j < n \<longrightarrow> allocated r ! j)"
      proof (intro allI impI)
        fix n j assume h: "\<forall>j. Suc i \<le> j \<and> j < n \<longrightarrow> allocated r ! j" "i \<le> j \<and> j < n"
        show "allocated r ! j"
        proof (cases "j = i")
          case True with a show ?thesis by simp
        next
          case False with h show ?thesis by (simp add: Suc_le_eq)
        qed
      qed
      ultimately show ?thesis
        by (elim disjE conjE) (simp_all add: Suc_le_eq less_imp_le)
    qed
  qed
qed

lemma allocate_page_cases:
  "allocate_page r m = (f, r') \<Longrightarrow>
   (f = UINT32_MAX \<and> r' = r \<and> (\<forall>j < length (allocated r). allocated r ! j)) \<or>
   (f < length (allocated r) \<and> \<not> allocated r ! f \<and> (\<forall>j < f. allocated r ! j) \<and>
    r' = r\<lparr>allocated := (allocated r)[f := True],
           frame_to_page := (frame_to_page r)[f := m]\<rparr>)"
  using allocate_page_loop_cases [of 0 r m f r'] by (auto simp add: allocate_page_def)

lemma allocate_page_fails:
  "length (allocated r) \<le> UINT32_MAX \<Longrightarrow> allocate_page r m = (UINT32_MAX, r') \<Longrightarrow>
   r' = r \<and> (\<forall>j < length (allocated r). allocated r ! j)"
  using allocate_page_cases [of r m UINT32_MAX r'] by auto

lemma sized_UINT32:
  "sized s \<Longrightarrow> length (allocated (ram s)) \<le> UINT32_MAX \<and>
     length (frame_to_page (ram s)) \<le> UINT32_MAX \<and>
     length (allocated_slots (swap_space s)) \<le> UINT32_MAX"
  by (simp add: sized_def cdefs)

lemma evict_page_fails:
  "evict_page stack s = Some (UINT32_MAX, s') \<Longrightarrow> sized s \<Longrightarrow> s' = s"
  by (auto simp add: evict_page_def Let_def split: option.splits if_splits prod.splits)


lemma load_page_True: "load_page stack v f s = Some (ok, s') \<Longrightarrow> ok"
  by (auto simp add: load_page_def Let_def split: option.splits prod.splits)

lemma handle_page_fault_fails:
  assumes "sized s" and "handle_page_fault stack vpage s = Some (False, s')"
  shows "s' = s"
proof (cases "page_table s vpage")
  case None
  with assms show ?thesis by (simp add: handle_page_fault_def)
next
  case (Some e)
  obtain f r1 where a: "allocate_page (ram s) (Some vpage) = (f, r1)"
    by (cases "allocate_page (ram s) (Some vpage)")
  show ?thesis
  proof (cases "f = UINT32_MAX")
    case False
    with assms Some a show ?thesis
      by (auto simp add: handle_page_fault_def dest: load_page_True)
  next
    case True
    with a assms(1) have r1: "r1 = ram s"
      using allocate_page_fails [of "ram s" "Some vpage" r1] by (simp add: sized_UINT32)
    then have s1: "s\<lparr>ram := r1\<rparr> = s" by simp
    from assms(2) Some a True s1 show ?thesis
      by (auto simp add: handle_page_fault_def split: option.splits prod.splits if_splits
          dest: load_page_True evict_page_fails [OF _ assms(1)])
  qed
qed

text \<open>
  Claim C7. When \<^verbatim>\<open>handle_page_fault\<close> returns \<^verbatim>\<open>false\<close> (the page has no entry, or
  no frame is free and \<^verbatim>\<open>evict_page\<close> finds no victim), the machine is exactly as it
  was before the call: the entry of the faulting page, every other entry, the frame
  bitmap, the swap bitmap and the stores.
\<close>

theorem failed_fault_unchanged:
  assumes "sized s" and "handle_page_fault stack vpage s = Some (False, s')"
  shows "s' = s"
  using assms by (rule handle_page_fault_fails)

theorem failed_fault_unchanged_witness:
  "(let s = MMU_new\<lparr>page_table := [0 \<mapsto> PageMetadata_new],
                     ram := RAM_new\<lparr>allocated := replicate 8 True\<rparr>\<rparr>
    in sized s \<and> handle_page_fault (\<lambda>_. CHR 0x00) 0 s = Some (False, s))"
proof -
  let ?s = "MMU_new\<lparr>page_table := [0 \<mapsto> PageMetadata_new],
                     ram := RAM_new\<lparr>allocated := replicate 8 True\<rparr>\<rparr>"
  have a: "sized ?s" by (simp add: sized_def eval_defs cdefs)
  have b: "handle_page_fault (\<lambda>_. CHR 0x00) 0 ?s =
      Some (False, snd (the (handle_page_fault (\<lambda>_. CHR 0x00) 0 ?s)))"
    by (simp add: eval_defs cdefs)
  show ?thesis
    using failed_fault_unchanged [OF a b] a b by (simp add: Let_def)
qed

subsection \<open>Mapping a page twice\<close>

text \<open>
  Claim C5 on \<^verbatim>\<open>MMU::map_pages\<close>. Page 5 is mapped and written, so its entry is present
  and dirty in frame 0. Mapping page 5 again returns \<^verbatim>\<open>true\<close> and replaces the entry
  by a fresh one; frame 0 stays allocated with its back-reference to the entry.
\<close>

theorem remap_overwrites:
  "(case write_memory (\<lambda>_. CHR 0x00) 20480 ''data'' (snd (map_pages 5 1 False 0 MMU_new)) of
      None \<Rightarrow> False
    | Some s \<Rightarrow>
        (\<exists>e. page_table s 5 = Some e \<and> present e \<and> dirty e \<and> physical_page e = 0) \<and>
        (case map_pages 5 1 False 0 s of
           (ok, s') \<Rightarrow> ok \<and> page_table s' 5 = Some (PageMetadata_new\<lparr>virtual_page := 5\<rparr>) \<and>
             allocated (ram s') ! 0 \<and> frame_to_page (ram s') ! 0 = Some 5))"
  by (simp add: eval_defs cdefs)

subsection \<open>What each function does to the components\<close>

lemma free_page_components:
  "allocated (free_page r f) = (allocated r)[f := False]"
  "length (frame_to_page r) = length (allocated r) \<Longrightarrow>
     frame_to_page (free_page r f) = (frame_to_page r)[f := None]"
  "memory (free_page r f) = memory r"
  by (simp_all add: free_page_def list_update_beyond)

lemma free_slot_components:
  "allocated_slots (free_slot sw j) = (allocated_slots sw)[j := False]"
  "swap_storage (free_slot sw j) = swap_storage sw"
  by (simp_all add: free_slot_def list_update_beyond)

lemma RAM_write_page_components:
  "allocated (RAM_write_page r f b) = allocated r"
  "frame_to_page (RAM_write_page r f b) = frame_to_page r"
  by (simp_all add: RAM_write_page_def split: option.splits)

lemma write_out_victim_frame:
  "write_out_victim stack f vm s = (vm1, s1) \<Longrightarrow>
   ram s1 = ram s \<and> page_table s1 = page_table s \<and> current_time s1 = current_time s \<and>
   next_disk_page s1 = next_disk_page s \<and>
   present vm1 = present vm \<and> physical_page vm1 = physical_page vm \<and>
   file_backed vm1 = file_backed vm \<and> disk_page vm1 = disk_page vm \<and>
   last_access vm1 = last_access vm \<and> dirty vm1 = dirty vm \<and> accessed vm1 = accessed vm \<and>
   virtual_page vm1 = virtual_page vm"
  by (auto simp add: write_out_victim_def Let_def split: if_splits prod.splits)

lemma allocate_slot_loop_length:
  "length (allocated_slots (snd (allocate_slot_loop i sw))) = length (allocated_slots sw)"
proof (induction i sw rule: allocate_slot_loop.induct)
  case (1 i sw)
  then show ?case by (simp add: allocate_slot_loop.simps [of i sw])
qed

lemma write_out_victim_sized:
  "write_out_victim stack f vm s = (vm1, s1) \<Longrightarrow>
   length (allocated_slots (swap_space s1)) = length (allocated_slots (swap_space s))"
  using allocate_slot_loop_length [of 0 "swap_space s"]
  by (auto simp add: write_out_victim_def Let_def allocate_slot_def SwapSpace_write_page_def
      split: if_splits prod.splits)

lemma evict_page_result:
  assumes "evict_page stack s = Some (f, s')" and "f \<noteq> UINT32_MAX"
  shows "find_lru_page (page_table s) (ram s) = Some f \<and> f < length (frame_to_page (ram s)) \<and>
    (\<exists>p vm vm1 s1. frame_to_page (ram s) ! f = Some p \<and> page_table s p = Some vm \<and>
       write_out_victim stack f vm s = (vm1, s1) \<and>
       s' = s1\<lparr>page_table :=
                 (page_table s)(p \<mapsto> vm1\<lparr>present := False, dirty := False, physical_page := 0\<rparr>),
               ram := free_page (ram s) f\<rparr>)"
proof -
  from assms have l: "find_lru_page (page_table s) (ram s) = Some f"
    by (auto simp add: evict_page_def Let_def split: option.splits if_splits prod.splits)
  with assms obtain p where p: "get_page_metadata (ram s) f = Some p"
    by (auto simp add: evict_page_def Let_def split: option.splits if_splits prod.splits)
  then have fl: "f < length (frame_to_page (ram s))" and fp: "frame_to_page (ram s) ! f = Some p"
    by (auto simp add: get_page_metadata_def split: if_splits)
  from assms l p obtain vm where vm: "page_table s p = Some vm"
    by (auto simp add: evict_page_def Let_def split: option.splits if_splits prod.splits)
  obtain vm1 s1 where w: "write_out_victim stack f vm s = (vm1, s1)"
    by (cases "write_out_victim stack f vm s")
  from write_out_victim_frame [OF w] assms l p vm w
  have "s' = s1\<lparr>page_table :=
                 (page_table s)(p \<mapsto> vm1\<lparr>present := False, dirty := False, physical_page := 0\<rparr>),
               ram := free_page (ram s) f\<rparr>"
    by (simp add: evict_page_def Let_def)
  with l fl fp vm w show ?thesis by blast
qed

subsection \<open>Frame ownership\<close>

lemma ownsD:
  "owns pt al ftp \<Longrightarrow> pt p = Some e \<Longrightarrow> present e \<Longrightarrow>
   physical_page e < length al \<and> al ! physical_page e \<and> ftp ! physical_page e = Some p"
  by (simp add: owns_def)

lemma owns_unique:
  "owns pt al ftp \<Longrightarrow> pt p = Some e \<Longrightarrow> pt q = Some e' \<Longrightarrow> present e \<Longrightarrow> present e' \<Longrightarrow>
   physical_page e = physical_page e' \<Longrightarrow> p = q"
  using ownsD [of pt al ftp p e] ownsD [of pt al ftp q e'] by simp

lemma owns_erase: "owns pt al ftp \<Longrightarrow> owns (pt(p := None)) al ftp"
  by (auto simp add: owns_def)

lemma owns_absent: "owns pt al ftp \<Longrightarrow> \<not> present e \<Longrightarrow> owns (pt(p \<mapsto> e)) al ftp"
  by (auto simp add: owns_def)

lemma owns_same_frame:
  "owns pt al ftp \<Longrightarrow> pt p = Some e0 \<Longrightarrow> present e0 \<Longrightarrow> physical_page e = physical_page e0 \<Longrightarrow>
   owns (pt(p \<mapsto> e)) al ftp"
  by (auto simp add: owns_def)

lemma owns_free:
  assumes "owns pt al ftp" and "\<And>p e. pt p = Some e \<Longrightarrow> present e \<Longrightarrow> physical_page e \<noteq> f"
  shows "owns pt (al[f := False]) (ftp[f := None])"
  unfolding owns_def
proof (intro allI impI)
  fix p e assume "pt p = Some e \<and> present e"
  then have a: "pt p = Some e" "present e" by simp_all
  with assms(2) have "physical_page e \<noteq> f" by blast
  with ownsD [OF assms(1) a]
  show "physical_page e < length (al[f := False]) \<and> al[f := False] ! physical_page e \<and>
      ftp[f := None] ! physical_page e = Some p"
    by simp
qed

lemma owns_alloc:
  assumes "owns pt al ftp" and "\<not> al ! f"
  shows "owns pt (al[f := True]) (ftp[f := m])"
  unfolding owns_def
proof (intro allI impI)
  fix p e assume "pt p = Some e \<and> present e"
  then have a: "pt p = Some e" "present e" by simp_all
  with ownsD [OF assms(1) a] assms(2) have "physical_page e \<noteq> f" by blast
  with ownsD [OF assms(1) a]
  show "physical_page e < length (al[f := True]) \<and> al[f := True] ! physical_page e \<and>
      ftp[f := m] ! physical_page e = Some p"
    by simp
qed

lemma owns_install:
  assumes "owns pt al ftp" and "f < length al" and "al ! f" and "ftp ! f = Some p"
    and "physical_page e = f"
  shows "owns (pt(p \<mapsto> e)) al ftp"
  using assms by (auto simp add: owns_def)

lemma owns_free_own:
  assumes "owns pt al ftp" and "pt p = Some e" and "present e"
  shows "owns (pt(p := None)) (al[physical_page e := False]) (ftp[physical_page e := None])"
proof (rule owns_free [OF owns_erase [OF assms(1)]])
  fix q e' assume "(pt(p := None)) q = Some e'" "present e'"
  with owns_unique [OF assms(1) _ assms(2) _ assms(3), of q e']
  show "physical_page e' \<noteq> physical_page e"
    by (auto split: if_splits)
qed

lemma owns_evict:
  assumes "owns pt al ftp" and "ftp ! f = Some p" and "\<not> present e"
  shows "owns (pt(p \<mapsto> e)) (al[f := False]) (ftp[f := None])"
proof (rule owns_free [OF owns_absent [OF assms(1) assms(3)]])
  fix q e' assume a: "(pt(p \<mapsto> e)) q = Some e'" "present e'"
  with assms(3) have q: "q \<noteq> p" "pt q = Some e'" by (auto split: if_splits)
  from ownsD [OF assms(1) q(2) a(2)] assms(2) q(1)
  show "physical_page e' \<noteq> f" by auto
qed


lemma owns_keep:
  "owns pt al ftp \<Longrightarrow> pt p = Some e0 \<Longrightarrow> present e = present e0 \<Longrightarrow>
   physical_page e = physical_page e0 \<Longrightarrow> owns (pt(p \<mapsto> e)) al ftp"
  by (auto simp add: owns_def)

lemma owned_init: "owned MMU_new"
  by (simp add: owned_def sized_def frames_owned_def owns_def MMU_new_def RAM_new_def
      SwapSpace_new_def)

lemma owns_map_pages_loop: "owns pt al ftp \<Longrightarrow> owns (map_pages_loop a fb d n pt) al ftp"
  by (induction n) (simp_all add: Let_def owns_absent PageMetadata_new_def)

lemma owned_map_pages: "owned s \<Longrightarrow> owned (snd (map_pages a n fb d s))"
  by (simp add: owned_def sized_def frames_owned_def map_pages_def owns_map_pages_loop)

lemma unmap_page_components:
  assumes "page_table s p = Some e"
  shows "page_table (unmap_page stack p s) = (page_table s)(p := None)"
    and "ram (unmap_page stack p s) = (if present e then free_page (ram s) (physical_page e) else ram s)"
    and "swap_space (unmap_page stack p s) =
         (if swapped e then free_slot (swap_space s) (swap_slot e) else swap_space s)"
    and "disk (unmap_page stack p s) =
         (if present e \<and> dirty e \<and> file_backed e
          then Disk_write_page (disk s) (disk_page e) (RAM_read_page (ram s) (physical_page e) stack)
          else disk s)"
    and "current_time (unmap_page stack p s) = current_time s"
  using assms by (simp_all add: unmap_page_def Let_def)

lemma owned_unmap_page: assumes "owned s" shows "owned (unmap_page stack p s)"
proof (cases "page_table s p")
  case None
  with assms show ?thesis by (simp add: unmap_page_def)
next
  case (Some e)
  from assms have sz: "sized s"
    and ow: "owns (page_table s) (allocated (ram s)) (frame_to_page (ram s))"
    by (simp_all add: owned_def frames_owned_def)
  note c = unmap_page_components [OF Some, of stack]
  have "sized (unmap_page stack p s)"
    using sz by (simp add: sized_def c free_page_components free_slot_components)
  moreover have "frames_owned (unmap_page stack p s)"
    using owns_free_own [OF ow Some] owns_erase [OF ow, of p] sz
    by (simp add: frames_owned_def c free_page_components sized_def)
  ultimately show ?thesis by (simp add: owned_def)
qed

lemma owned_unmap_pages: "owned s \<Longrightarrow> owned (snd (unmap_pages stack a n s))"
  by (induction n) (simp_all add: unmap_pages_def owned_unmap_page)

lemma owned_evict_page:
  assumes "owned s" and "evict_page stack s = Some (f, s')"
  shows "owned s'"
proof (cases "f = UINT32_MAX")
  case True
  with assms show ?thesis using evict_page_fails [of stack s s'] by (simp add: owned_def)
next
  case False
  from assms(1) have sz: "sized s"
    and ow: "owns (page_table s) (allocated (ram s)) (frame_to_page (ram s))"
    by (simp_all add: owned_def frames_owned_def)
  from evict_page_result [OF assms(2) False] obtain p vm vm1 s1 where
    r: "frame_to_page (ram s) ! f = Some p" "page_table s p = Some vm"
      "write_out_victim stack f vm s = (vm1, s1)"
      "s' = s1\<lparr>page_table :=
                 (page_table s)(p \<mapsto> vm1\<lparr>present := False, dirty := False, physical_page := 0\<rparr>),
               ram := free_page (ram s) f\<rparr>"
    by blast
  have "sized s'"
    using sz write_out_victim_sized [OF r(3)]
    by (simp add: sized_def r(4) free_page_components)
  moreover have "frames_owned s'"
    using owns_evict [OF ow r(1), of "vm1\<lparr>present := False, dirty := False, physical_page := 0\<rparr>"] sz
    by (simp add: frames_owned_def r(4) free_page_components sized_def)
  ultimately show ?thesis by (simp add: owned_def)
qed

lemma evict_page_frees:
  assumes "sized s" and "evict_page stack s = Some (f, s')" and "f \<noteq> UINT32_MAX"
  shows "f < length (allocated (ram s')) \<and> \<not> allocated (ram s') ! f"
proof -
  from evict_page_result [OF assms(2,3)] obtain p vm vm1 s1 where
    r: "f < length (frame_to_page (ram s))"
      "s' = s1\<lparr>page_table :=
                 (page_table s)(p \<mapsto> vm1\<lparr>present := False, dirty := False, physical_page := 0\<rparr>),
               ram := free_page (ram s) f\<rparr>"
    by blast
  with assms(1) show ?thesis by (simp add: free_page_components sized_def)
qed


lemma load_page_result:
  assumes "load_page stack v f s = Some (ok, s')" and "page_table s v = Some pte"
  shows "ok"
    and "page_table s' = (page_table s)(v \<mapsto>
           pte\<lparr>swapped := False, physical_page := f, present := True,
               last_access := (current_time s + 1) mod 2 ^ 64\<rparr>)"
    and "current_time s' = (current_time s + 1) mod 2 ^ 64"
    and "ram s' = RAM_write_page (ram s) f (load_buffer stack s pte)"
    and "disk s' = disk s"
    and "swap_space s' = (if swapped pte then free_slot (swap_space s) (swap_slot pte)
                          else swap_space s)"
    and "next_disk_page s' = next_disk_page s"
  using assms
  by (auto simp add: load_page_def Let_def load_buffer_def split: if_splits)


lemma owned_load_page:
  assumes "owned s" and "load_page stack v f s = Some (ok, s')"
    and "f < length (allocated (ram s))" and "allocated (ram s) ! f"
    and "frame_to_page (ram s) ! f = Some v"
  shows "owned s'"
proof -
  from assms(1) have sz: "sized s"
    and ow: "owns (page_table s) (allocated (ram s)) (frame_to_page (ram s))"
    by (simp_all add: owned_def frames_owned_def)
  from assms(2) obtain pte where pte: "page_table s v = Some pte"
    by (auto simp add: load_page_def split: option.splits)
  note r = load_page_result [OF assms(2) pte]
  have "sized s'"
    using sz by (simp add: sized_def r free_slot_components RAM_write_page_components)
  moreover have "frames_owned s'"
    using owns_install [OF ow assms(3,4,5), of "pte\<lparr>swapped := False, physical_page := f,
        present := True, last_access := (current_time s + 1) mod 2 ^ 64\<rparr>"]
    by (simp add: frames_owned_def r RAM_write_page_components)
  ultimately show ?thesis by (simp add: owned_def)
qed

lemma owned_allocate_page:
  assumes "owned s" and "allocate_page (ram s) m = (f, r)"
  shows "owned (s\<lparr>ram := r\<rparr>)"
proof -
  from assms(1) have sz: "sized s"
    and ow: "owns (page_table s) (allocated (ram s)) (frame_to_page (ram s))"
    by (simp_all add: owned_def frames_owned_def)
  from allocate_page_cases [OF assms(2)] show ?thesis
  proof (elim disjE conjE)
    assume "r = ram s"
    then have "s\<lparr>ram := r\<rparr> = s" by simp
    with assms(1) show ?thesis by simp
  next
    assume a: "\<not> allocated (ram s) ! f"
      "r = ram s\<lparr>allocated := (allocated (ram s))[f := True],
                 frame_to_page := (frame_to_page (ram s))[f := m]\<rparr>"
    from owns_alloc [OF ow a(1), of m] sz show ?thesis
      by (simp add: owned_def sized_def frames_owned_def a(2))
  qed
qed

lemma allocate_page_succeeds:
  assumes "allocate_page r m = (f, r')" and "f \<noteq> UINT32_MAX \<or> (\<exists>g < length (allocated r). \<not> allocated r ! g)"
  shows "f < length (allocated r) \<and> \<not> allocated r ! f \<and>
     allocated r' = (allocated r)[f := True] \<and> frame_to_page r' = (frame_to_page r)[f := m] \<and>
     memory r' = memory r"
  using allocate_page_cases [OF assms(1)] assms(2) by auto

lemma owned_handle_page_fault:
  assumes "owned s" and "handle_page_fault stack v s = Some (ok, s')"
  shows "owned s'"
proof (cases "page_table s v")
  case None
  with assms show ?thesis by (simp add: handle_page_fault_def)
next
  case (Some e)
  obtain f r1 where a: "allocate_page (ram s) (Some v) = (f, r1)"
    by (cases "allocate_page (ram s) (Some v)")
  let ?s1 = "s\<lparr>ram := r1\<rparr>"
  have o1: "owned ?s1" using assms(1) a by (rule owned_allocate_page)
  then have sz1: "sized ?s1" by (simp add: owned_def)
  from assms(1) have sz: "sized s" by (simp add: owned_def)
  show ?thesis
  proof (cases "f = UINT32_MAX")
    case False
    from allocate_page_succeeds [OF a] False sz have
      "f < length (allocated (ram ?s1))" "allocated (ram ?s1) ! f"
      "frame_to_page (ram ?s1) ! f = Some v"
      by (simp_all add: sized_def)
    moreover from assms(2) Some a False have "load_page stack v f ?s1 = Some (ok, s')"
      by (simp add: handle_page_fault_def)
    ultimately show ?thesis using owned_load_page [OF o1] by blast
  next
    case True
    with assms(2) Some a obtain g s2 where e: "evict_page stack ?s1 = Some (g, s2)"
      by (auto simp add: handle_page_fault_def split: option.splits)
    have o2: "owned s2" using o1 e by (rule owned_evict_page)
    then have sz2: "sized s2" by (simp add: owned_def)
    show ?thesis
    proof (cases "g = UINT32_MAX")
      case True
      with assms(2) Some a \<open>f = UINT32_MAX\<close> e o2 show ?thesis
        by (simp add: handle_page_fault_def)
    next
      case False
      from evict_page_frees [OF sz1 e False]
      have fr: "g < length (allocated (ram s2))" "\<not> allocated (ram s2) ! g" by simp_all
      obtain h r3 where b: "allocate_page (free_page (ram s2) g) (Some v) = (h, r3)"
        by (cases "allocate_page (free_page (ram s2) g) (Some v)")
      let ?s2 = "s2\<lparr>ram := free_page (ram s2) g\<rparr>"
      have "owns (page_table s2) (allocated (ram s2)) (frame_to_page (ram s2))"
        using o2 by (simp add: owned_def frames_owned_def)
      then have np: "\<And>p e. page_table s2 p = Some e \<Longrightarrow> present e \<Longrightarrow> physical_page e \<noteq> g"
        using fr(2) by (auto dest: ownsD)
      have o2': "owned ?s2"
        using owns_free [OF _ np] o2 sz2
        by (simp add: owned_def sized_def frames_owned_def free_page_components)
      have b': "allocate_page (ram ?s2) (Some v) = (h, r3)" using b by simp
      have o3: "owned (?s2\<lparr>ram := r3\<rparr>)" using o2' b' by (rule owned_allocate_page)
      have ex: "\<exists>k < length (allocated (ram ?s2)). \<not> allocated (ram ?s2) ! k"
        using fr by (auto simp add: free_page_components intro!: exI [of _ g])
      from allocate_page_succeeds [OF b'] ex sz2 have
        "h < length (allocated (ram (?s2\<lparr>ram := r3\<rparr>)))" "allocated (ram (?s2\<lparr>ram := r3\<rparr>)) ! h"
        "frame_to_page (ram (?s2\<lparr>ram := r3\<rparr>)) ! h = Some v"
        by (simp_all add: sized_def free_page_components)
      moreover from assms(2) Some a \<open>f = UINT32_MAX\<close> e False b
      have "load_page stack v h (?s2\<lparr>ram := r3\<rparr>) = Some (ok, s')"
        by (simp add: handle_page_fault_def)
      ultimately show ?thesis using owned_load_page [OF o3] by blast
    qed
  qed
qed

subsection \<open>Translation and the reachable states\<close>

lemma touch_fields:
  "present (touch w t pte) = present pte"
  "physical_page (touch w t pte) = physical_page pte"
  "swapped (touch w t pte) = swapped pte"
  "swap_slot (touch w t pte) = swap_slot pte"
  "file_backed (touch w t pte) = file_backed pte"
  "disk_page (touch w t pte) = disk_page pte"
  "last_access (touch w t pte) = t"
  "dirty (touch w t pte) = (w \<or> dirty pte)"
  by (simp_all add: touch_def)

lemma record_access_result:
  assumes "record_access vaddr w s = Some (po, s')"
    and "page_table s ((vaddr div PAGE_SIZE) mod 2 ^ 32) = Some pte"
  shows "s' = s\<lparr>page_table := (page_table s)((vaddr div PAGE_SIZE) mod 2 ^ 32 \<mapsto>
                   touch w ((current_time s + 1) mod 2 ^ 64) pte),
               current_time := (current_time s + 1) mod 2 ^ 64\<rparr>"
    and "po = (case get_page_ptr (ram s) (physical_page pte) of
               Some phys_addr \<Rightarrow> Some (phys_addr + vaddr mod PAGE_SIZE) | None \<Rightarrow> None)"
  using assms
  by (auto simp add: record_access_def Let_def touch_def split: option.splits if_splits)


lemma translate_address_unfold:
  "translate_address stack vaddr w s =
     (case page_table s ((vaddr div PAGE_SIZE) mod 2 ^ 32) of
        None \<Rightarrow> Some (None, s)
      | Some pte0 \<Rightarrow>
          if present pte0 then record_access vaddr w s
          else (case handle_page_fault stack ((vaddr div PAGE_SIZE) mod 2 ^ 32) s of
                  None \<Rightarrow> None
                | Some (ok, s1) \<Rightarrow> if ok then record_access vaddr w s1 else Some (None, s1)))"
  by (simp add: translate_address_def Let_def split: option.splits)

lemma translate_address_cases:
  assumes "translate_address stack vaddr w s = Some (po, s')"
    and "v = (vaddr div PAGE_SIZE) mod 2 ^ 32"
  obtains (unmapped) "page_table s v = None" "po = None" "s' = s"
  | (resident) pte where "page_table s v = Some pte" "present pte"
      "record_access vaddr w s = Some (po, s')"
  | (failed) pte where "page_table s v = Some pte" "\<not> present pte"
      "handle_page_fault stack v s = Some (False, s')" "po = None"
  | (faulted) pte s1 where "page_table s v = Some pte" "\<not> present pte"
      "handle_page_fault stack v s = Some (True, s1)"
      "record_access vaddr w s1 = Some (po, s')"
proof -
  note t = assms(1) [unfolded translate_address_unfold, folded assms(2)]
  show ?thesis
  proof (cases "page_table s v")
    case None
    with t have "po = None" "s' = s" by simp_all
    with None show ?thesis by (rule unmapped)
  next
    case (Some pte)
    show ?thesis
    proof (cases "present pte")
      case True
      with t Some have "record_access vaddr w s = Some (po, s')" by simp
      with Some True show ?thesis by (rule resident)
    next
      case False
      show ?thesis
      proof (cases "handle_page_fault stack v s")
        case None
        with t Some False show ?thesis by simp
      next
        case h: (Some r)
        obtain ok s1 where r: "r = (ok, s1)" by (cases r)
        show ?thesis
        proof (cases ok)
          case True
          with h r t Some False have "record_access vaddr w s1 = Some (po, s')" by simp
          with Some False h r True show ?thesis by (auto intro: faulted)
        next
          case f: False
          with h r t Some False have "po = None" "s' = s1" by simp_all
          with Some False h r f show ?thesis by (auto intro: failed)
        qed
      qed
    qed
  qed
qed

lemma owned_record_access:
  assumes "owned s" and "record_access vaddr w s = Some (po, s')"
  shows "owned s'"
proof -
  from assms(2) obtain pte where pte: "page_table s ((vaddr div PAGE_SIZE) mod 2 ^ 32) = Some pte"
    by (auto simp add: record_access_def Let_def split: option.splits)
  note r = record_access_result [OF assms(2) pte]
  from assms(1) have sz: "sized s"
    and ow: "owns (page_table s) (allocated (ram s)) (frame_to_page (ram s))"
    by (simp_all add: owned_def frames_owned_def)
  from owns_keep [OF ow pte, of "touch w ((current_time s + 1) mod 2 ^ 64) pte"] sz
  show ?thesis
    by (simp add: owned_def sized_def frames_owned_def r(1) touch_fields)
qed

lemma owned_translate_address:
  assumes "owned s" and "translate_address stack vaddr w s = Some (po, s')"
  shows "owned s'"
  using assms(2) refl
proof (cases rule: translate_address_cases)
  case unmapped with assms(1) show ?thesis by simp
next
  case (resident pte) with assms(1) show ?thesis by (auto intro: owned_record_access)
next
  case (failed pte)
  from assms(1) have "sized s" by (simp add: owned_def)
  from handle_page_fault_fails [OF this failed(3)] assms(1) show ?thesis by simp
next
  case (faulted pte s1)
  from owned_handle_page_fault [OF assms(1) faulted(3)] faulted(4) show ?thesis
    by (rule owned_record_access)
qed

lemma owned_memory: "owned s \<Longrightarrow> owned (s\<lparr>ram := (ram s)\<lparr>memory := m\<rparr>\<rparr>)"
  by (simp add: owned_def sized_def frames_owned_def)

lemma owned_disk: "owned s \<Longrightarrow> owned (s\<lparr>disk := d\<rparr>)"
  by (simp add: owned_def sized_def frames_owned_def)

lemma owned_step:
  assumes "owned s" and "step stack op s = Some s'"
  shows "owned s'"
proof (cases op)
  case (MapPages a n fb d)
  with assms show ?thesis by (auto intro: owned_map_pages)
next
  case (UnmapPages a n)
  with assms show ?thesis by (auto intro: owned_unmap_pages)
next
  case (TranslateAddress a w)
  with assms show ?thesis by (auto intro: owned_translate_address)
next
  case (HandlePageFault v)
  with assms show ?thesis by (auto intro: owned_handle_page_fault)
next
  case EvictPage
  with assms show ?thesis by (auto intro: owned_evict_page)
next
  case (WriteMemory a data)
  with assms(2) obtain po s1 where t: "translate_address stack a True s = Some (po, s1)"
    by (auto simp add: write_memory_def split: option.splits)
  from owned_translate_address [OF assms(1) t] have "owned s1" .
  with assms(2) WriteMemory t show ?thesis
    by (auto simp add: write_memory_def split: option.splits if_splits intro: owned_memory)
next
  case (ReadMemory a n)
  with assms(2) obtain po s1 where t: "translate_address stack a False s = Some (po, s1)"
    by (auto simp add: read_memory_def split: option.splits)
  from owned_translate_address [OF assms(1) t] have "owned s1" .
  with assms(2) ReadMemory t show ?thesis
    by (auto simp add: read_memory_def split: option.splits if_splits)
next
  case (CreateFile data)
  with assms show ?thesis by (auto intro: owned_disk)
qed

lemma reachable_owned: "reachable s \<Longrightarrow> owned s"
  by (induction rule: reachable.induct) (auto intro: owned_init owned_step)


lemma run_reachable: "reachable s \<Longrightarrow> run stack ops s = Some s' \<Longrightarrow> reachable s'"
proof (induction ops arbitrary: s)
  case Nil
  then show ?case by simp
next
  case (Cons op ops)
  from Cons.prems(2) obtain s1 where s1: "step stack op s = Some s1" "run stack ops s1 = Some s'"
    by (auto split: option.splits)
  from Cons.prems(1) s1(1) have "reachable s1" by (rule reachable_step)
  then show ?case using s1(2) by (rule Cons.IH)
qed

lemma owned_frame_unique: "owned s \<Longrightarrow> frame_unique s"
  unfolding owned_def frames_owned_def frame_unique_def
  by (blast dest: owns_unique)

text \<open>
  Claim C2. In every state reached from the initial one by any sequence of operations
  (mapping, also over a live page; unmapping; translation with its faults; direct calls of
  the fault handler and of the eviction; memory reads and writes), no two distinct present
  entries hold the same frame. A frame handed out by \<^verbatim>\<open>allocate_page\<close> is in range and
  its allocation bit was clear. After \<^verbatim>\<open>evict_page\<close> has returned frame \<open>f\<close>, the
  entry that \<open>f\<close> pointed at is not present, \<open>f\<close> is free, and no present entry holds
  \<open>f\<close>.
\<close>

theorem frame_uniqueness:
  assumes "reachable s"
  shows "frame_unique s \<and>
    (\<forall>m f r'. allocate_page (ram s) m = (f, r') \<and> f \<noteq> UINT32_MAX \<longrightarrow>
       f < length (allocated (ram s)) \<and> \<not> allocated (ram s) ! f \<and> allocated r' ! f) \<and>
    (\<forall>stack f s'. evict_page stack s = Some (f, s') \<and> f \<noteq> UINT32_MAX \<longrightarrow>
       \<not> allocated (ram s') ! f \<and>
       (\<exists>p e. frame_to_page (ram s) ! f = Some p \<and> page_table s' p = Some e \<and> \<not> present e) \<and>
       (\<forall>q e. page_table s' q = Some e \<and> present e \<longrightarrow> physical_page e \<noteq> f))"
proof (intro conjI allI impI)
  from assms have o: "owned s" by (rule reachable_owned)
  then show "frame_unique s" by (rule owned_frame_unique)
  {
    fix m f r' assume a: "allocate_page (ram s) m = (f, r') \<and> f \<noteq> UINT32_MAX"
    with allocate_page_succeeds [of "ram s" m f r']
    show "f < length (allocated (ram s))" "\<not> allocated (ram s) ! f" "allocated r' ! f"
      by simp_all
  }
  {
    fix stack f s' assume a: "evict_page stack s = Some (f, s') \<and> f \<noteq> UINT32_MAX"
    then have e: "evict_page stack s = Some (f, s')" and f: "f \<noteq> UINT32_MAX" by simp_all
    from o have sz: "sized s" by (simp add: owned_def)
    from evict_page_frees [OF sz e f] show na: "\<not> allocated (ram s') ! f" by simp
    from evict_page_result [OF e f]
    show "\<exists>p e. frame_to_page (ram s) ! f = Some p \<and> page_table s' p = Some e \<and> \<not> present e"
      by auto
    from owned_evict_page [OF o e]
    have ow: "owns (page_table s') (allocated (ram s')) (frame_to_page (ram s'))"
      by (simp add: owned_def frames_owned_def)
    fix q e assume "page_table s' q = Some e \<and> present e"
    with ownsD [OF ow, of q e] na show "physical_page e \<noteq> f" by auto
  }
qed

theorem frame_uniqueness_witness:
  "(case run (\<lambda>_. CHR 0x00)
      [MapPages 0 2 False 0, WriteMemory 0 ''ab'', WriteMemory 4096 ''cd''] MMU_new of
      None \<Rightarrow> False
    | Some s \<Rightarrow> reachable s \<and> frame_unique s \<and>
        (\<exists>e e'. page_table s 0 = Some e \<and> page_table s 1 = Some e' \<and> present e \<and> present e' \<and>
           physical_page e = 0 \<and> physical_page e' = 1))"
proof -
  let ?r = "run (\<lambda>_. CHR 0x00)
      [MapPages 0 2 False 0, WriteMemory 0 ''ab'', WriteMemory 4096 ''cd''] MMU_new"
  have ev: "case ?r of None \<Rightarrow> False
    | Some s \<Rightarrow> (\<exists>e e'. page_table s 0 = Some e \<and> page_table s 1 = Some e' \<and> present e \<and>
         present e' \<and> physical_page e = 0 \<and> physical_page e' = 1)"
    by (simp add: eval_defs cdefs)
  then obtain s where s: "?r = Some s" by (cases ?r) simp_all
  from run_reachable [OF reachable_init s] have r: "reachable s" .
  from frame_uniqueness [OF r] have "frame_unique s" by simp
  with ev r s show ?thesis by simp
qed

subsection \<open>The least recently used frame\<close>

lemma find_lru_loop_spec:
  "find_lru_loop pt r i oldest lru = Some f \<Longrightarrow>
   (f = lru \<and>
    (\<forall>g p m. i \<le> g \<and> g < length (frame_to_page r) \<and> allocated r ! g \<and>
       frame_to_page r ! g = Some p \<and> pt p = Some m \<longrightarrow> oldest \<le> last_access m)) \<or>
   (i \<le> f \<and> f < length (frame_to_page r) \<and> allocated r ! f \<and>
    (\<exists>p m. frame_to_page r ! f = Some p \<and> pt p = Some m \<and> last_access m < oldest \<and>
       (\<forall>g p' m'. i \<le> g \<and> g < length (frame_to_page r) \<and> allocated r ! g \<and>
          frame_to_page r ! g = Some p' \<and> pt p' = Some m' \<longrightarrow>
          last_access m \<le> last_access m' \<and> (g < f \<longrightarrow> last_access m < last_access m'))))"
proof (induction pt r i oldest lru rule: find_lru_loop.induct)
  case (1 pt r i oldest lru)
  let ?n = "length (frame_to_page r)"
  show ?case
  proof (cases "i < ?n")
    case False
    with "1.prems" show ?thesis by (simp add: find_lru_loop.simps [of pt r i])
  next
    case i: True
    have split: "\<And>g. i \<le> g \<Longrightarrow> g = i \<or> Suc i \<le> g" by auto
    show ?thesis
    proof (cases "frame_to_page r ! i")
      case None
      with i "1.prems" have "find_lru_loop pt r (Suc i) oldest lru = Some f"
        by (simp add: find_lru_loop.simps [of pt r i])
      from "1.IH"(1) [OF i None this] None show ?thesis
        by (elim disjE conjE exE) (rule disjI1, force dest: split,
            rule disjI2, force dest: split)
    next
      case (Some p)
      show ?thesis
      proof (cases "allocated r ! i")
        case False
        with i Some "1.prems" have "find_lru_loop pt r (Suc i) oldest lru = Some f"
          by (simp add: find_lru_loop.simps [of pt r i])
        from "1.IH"(4) [OF i Some False this] False show ?thesis
          by (elim disjE conjE exE) (rule disjI1, force dest: split,
              rule disjI2, force dest: split)
      next
        case a: True
        show ?thesis
        proof (cases "pt p")
          case None
          with i Some a "1.prems" show ?thesis
            by (simp add: find_lru_loop.simps [of pt r i])
        next
          case m: (Some m)
          show ?thesis
          proof (cases "last_access m < oldest")
            case True
            with i Some a m "1.prems"
            have "find_lru_loop pt r (Suc i) (last_access m) i = Some f"
              by (simp add: find_lru_loop.simps [of pt r i])
            from "1.IH"(2) [OF i Some a m True this] show ?thesis
            proof (elim disjE conjE exE)
              assume f: "f = i"
                and l: "\<forall>g p' m'. Suc i \<le> g \<and> g < ?n \<and> allocated r ! g \<and>
                  frame_to_page r ! g = Some p' \<and> pt p' = Some m' \<longrightarrow>
                  last_access m \<le> last_access m'"
              have "\<forall>g p' m'. i \<le> g \<and> g < ?n \<and> allocated r ! g \<and>
                  frame_to_page r ! g = Some p' \<and> pt p' = Some m' \<longrightarrow>
                  last_access m \<le> last_access m' \<and> (g < f \<longrightarrow> last_access m < last_access m')"
                using l Some m f by (auto dest!: split)
              with f i a Some m True show ?thesis by auto
            next
              fix p2 m2
              assume f: "Suc i \<le> f" "f < ?n" "allocated r ! f" "frame_to_page r ! f = Some p2"
                "pt p2 = Some m2" "last_access m2 < last_access m"
                and l: "\<forall>g p' m'. Suc i \<le> g \<and> g < ?n \<and> allocated r ! g \<and>
                  frame_to_page r ! g = Some p' \<and> pt p' = Some m' \<longrightarrow>
                  last_access m2 \<le> last_access m' \<and> (g < f \<longrightarrow> last_access m2 < last_access m')"
              have "\<forall>g p' m'. i \<le> g \<and> g < ?n \<and> allocated r ! g \<and>
                  frame_to_page r ! g = Some p' \<and> pt p' = Some m' \<longrightarrow>
                  last_access m2 \<le> last_access m' \<and> (g < f \<longrightarrow> last_access m2 < last_access m')"
                using l Some m f(6) by (auto dest!: split)
              with f True show ?thesis by auto
            qed
          next
            case False
            with i Some a m "1.prems"
            have "find_lru_loop pt r (Suc i) oldest lru = Some f"
              by (simp add: find_lru_loop.simps [of pt r i])
            from "1.IH"(3) [OF i Some a m False this] show ?thesis
            proof (elim disjE conjE exE)
              assume f: "f = lru"
                and l: "\<forall>g p' m'. Suc i \<le> g \<and> g < ?n \<and> allocated r ! g \<and>
                  frame_to_page r ! g = Some p' \<and> pt p' = Some m' \<longrightarrow> oldest \<le> last_access m'"
              have "\<forall>g p' m'. i \<le> g \<and> g < ?n \<and> allocated r ! g \<and>
                  frame_to_page r ! g = Some p' \<and> pt p' = Some m' \<longrightarrow> oldest \<le> last_access m'"
                using l Some m False by (auto dest!: split)
              with f show ?thesis by auto
            next
              fix p2 m2
              assume f: "Suc i \<le> f" "f < ?n" "allocated r ! f" "frame_to_page r ! f = Some p2"
                "pt p2 = Some m2" "last_access m2 < oldest"
                and l: "\<forall>g p' m'. Suc i \<le> g \<and> g < ?n \<and> allocated r ! g \<and>
                  frame_to_page r ! g = Some p' \<and> pt p' = Some m' \<longrightarrow>
                  last_access m2 \<le> last_access m' \<and> (g < f \<longrightarrow> last_access m2 < last_access m')"
              have "\<forall>g p' m'. i \<le> g \<and> g < ?n \<and> allocated r ! g \<and>
                  frame_to_page r ! g = Some p' \<and> pt p' = Some m' \<longrightarrow>
                  last_access m2 \<le> last_access m' \<and> (g < f \<longrightarrow> last_access m2 < last_access m')"
                using l Some m f(6) False by (auto dest!: split)
              with f show ?thesis by auto
            qed
          qed
        qed
      qed
    qed
  qed
qed



lemma find_lru_page_spec:
  assumes "find_lru_page pt r = Some f" and "f \<noteq> UINT32_MAX"
  shows "f < length (frame_to_page r) \<and> allocated r ! f \<and>
    (\<exists>p m. frame_to_page r ! f = Some p \<and> pt p = Some m \<and> last_access m < UINT64_MAX \<and>
       (\<forall>g p' m'. g < length (frame_to_page r) \<and> allocated r ! g \<and>
          frame_to_page r ! g = Some p' \<and> pt p' = Some m' \<longrightarrow>
          last_access m \<le> last_access m' \<and> (g < f \<longrightarrow> last_access m < last_access m')))"
  using find_lru_loop_spec [of pt r 0 UINT64_MAX UINT32_MAX f] assms
  by (auto simp add: find_lru_page_def)



lemma backsD:
  "backs pt al ftp \<Longrightarrow> f < length al \<Longrightarrow> al ! f \<Longrightarrow>
   \<exists>p e. ftp ! f = Some p \<and> pt p = Some e \<and> present e \<and> physical_page e = f"
  by (simp add: backs_def)



lemma backs_keep:
  "backs pt al ftp \<Longrightarrow> pt p = Some e0 \<Longrightarrow> present e = present e0 \<Longrightarrow>
   physical_page e = physical_page e0 \<Longrightarrow> backs (pt(p \<mapsto> e)) al ftp"
  unfolding backs_def
proof (intro allI impI)
  fix f assume a: "\<forall>f<length al. al ! f \<longrightarrow>
      (\<exists>p e. ftp ! f = Some p \<and> pt p = Some e \<and> present e \<and> physical_page e = f)"
    and b: "pt p = Some e0" "present e = present e0" "physical_page e = physical_page e0"
    and f: "f < length al" "al ! f"
  from a f obtain q e' where q: "ftp ! f = Some q" "pt q = Some e'" "present e'"
    "physical_page e' = f" by blast
  show "\<exists>pa ea. ftp ! f = Some pa \<and> (pt(p \<mapsto> e)) pa = Some ea \<and> present ea \<and>
      physical_page ea = f"
  proof (cases "q = p")
    case True
    with q b show ?thesis by simp
  next
    case False
    with q show ?thesis by simp
  qed
qed

lemma record_access_present:
  assumes "record_access vaddr w s = Some (po, s')"
    and "page_table s ((vaddr div PAGE_SIZE) mod 2 ^ 32) = Some e"
  shows "sized s \<Longrightarrow> sized s'"
    and "frames_owned s \<Longrightarrow> frames_owned s'"
    and "frames_backed s \<Longrightarrow> frames_backed s'"
    and "ram s' = ram s"
proof -
  note r = record_access_result [OF assms]
  show "sized s \<Longrightarrow> sized s'" by (simp add: sized_def r(1))
  show "frames_owned s \<Longrightarrow> frames_owned s'"
    using owns_keep [of "page_table s" "allocated (ram s)" "frame_to_page (ram s)"
        "(vaddr div PAGE_SIZE) mod 2 ^ 32" e "touch w ((current_time s + 1) mod 2 ^ 64) e"] assms(2)
    by (simp add: frames_owned_def r(1) touch_fields)
  show "frames_backed s \<Longrightarrow> frames_backed s'"
    using backs_keep [of "page_table s" "allocated (ram s)" "frame_to_page (ram s)"
        "(vaddr div PAGE_SIZE) mod 2 ^ 32" e "touch w ((current_time s + 1) mod 2 ^ 64) e"] assms(2)
    by (simp add: frames_backed_def r(1) touch_fields)
  show "ram s' = ram s" by (simp add: r(1))
qed

lemma evict_page_lru:
  assumes sz: "sized s" and fo: "frames_owned s" and bk: "frames_backed s"
    and ev: "evict_page stack s = Some (f, s')" and f: "f \<noteq> UINT32_MAX"
  shows "\<exists>p e. frame_to_page (ram s) ! f = Some p \<and> page_table s p = Some e \<and> present e \<and>
     physical_page e = f \<and>
     (\<forall>q e'. page_table s q = Some e' \<and> present e' \<longrightarrow>
        last_access e \<le> last_access e' \<and>
        (physical_page e' < f \<longrightarrow> last_access e < last_access e')) \<and>
     (\<exists>e1. page_table s' p = Some e1 \<and> \<not> present e1) \<and>
     (\<forall>q. q \<noteq> p \<longrightarrow> page_table s' q = page_table s q)"
proof -
  let ?r = "ram s" and ?pt = "page_table s"
  from sz have len: "length (frame_to_page ?r) = length (allocated ?r)" by (simp add: sized_def)
  from evict_page_result [OF ev f] obtain p vm vm1 s1 where
    r: "find_lru_page ?pt ?r = Some f" "frame_to_page ?r ! f = Some p" "?pt p = Some vm"
      "s' = s1\<lparr>page_table :=
                 ?pt(p \<mapsto> vm1\<lparr>present := False, dirty := False, physical_page := 0\<rparr>),
               ram := free_page ?r f\<rparr>"
    by blast
  from find_lru_page_spec [OF r(1) f] r(2,3) have
    l: "f < length (frame_to_page ?r)" "allocated ?r ! f"
      "\<forall>g p' m'. g < length (frame_to_page ?r) \<and> allocated ?r ! g \<and>
          frame_to_page ?r ! g = Some p' \<and> ?pt p' = Some m' \<longrightarrow>
          last_access vm \<le> last_access m' \<and> (g < f \<longrightarrow> last_access vm < last_access m')"
    by auto
  from bk l(1,2) len r(2,3) have v: "present vm" "physical_page vm = f"
    by (auto simp add: frames_backed_def dest!: backsD)
  have "\<forall>q e'. ?pt q = Some e' \<and> present e' \<longrightarrow>
        last_access vm \<le> last_access e' \<and>
        (physical_page e' < f \<longrightarrow> last_access vm < last_access e')"
  proof (intro allI impI)
    fix q e' assume "?pt q = Some e' \<and> present e'"
    then have q: "?pt q = Some e'" "present e'" by simp_all
    from fo have "owns ?pt (allocated ?r) (frame_to_page ?r)" by (simp add: frames_owned_def)
    from ownsD [OF this q] len l(3) [rule_format, of "physical_page e'" q e'] q(1)
    show "last_access vm \<le> last_access e' \<and>
        (physical_page e' < f \<longrightarrow> last_access vm < last_access e')"
      by simp
  qed
  with r v show ?thesis by simp
qed

subsection \<open>Swap slots\<close>






subsection \<open>The invariants, component by component\<close>













subsection \<open>Eviction in a well-formed state\<close>







subsection \<open>A fault when a frame is free\<close>












subsection \<open>Where the bytes of a page are\<close>

















subsection \<open>Translation returns\<close>



subsection \<open>The clock\<close>








subsection \<open>Room in the swap space\<close>


subsection \<open>The set of mapped pages\<close>






subsection \<open>Accesses to other pages\<close>










subsection \<open>The backing of a page never changes\<close>











subsection \<open>Writing a page and reading it back\<close>




subsection \<open>A fresh machine with mapped pages\<close>





lemma current_time_mapped: "current_time (snd (map_pages a n fb d s)) = current_time s"
  by (simp add: map_pages_def)


subsection \<open>Round trip\<close>





end
